theory Spec2Isabelle
  imports Complex_Main
begin

section \<open>Plane-shape geometry and quiz session of \<^verbatim>\<open>app.py\<close>\<close>

text \<open>
  Python floats are idealised as the reals: \<^verbatim>\<open>math.sin\<close>, \<^verbatim>\<open>math.cos\<close>,
  \<^verbatim>\<open>math.tan\<close> and \<^verbatim>\<open>math.hypot\<close> are the real functions, and rounding is not
  modelled. A float division by zero raises \<^verbatim>\<open>ZeroDivisionError\<close> in Python; the model
  makes that a value.
\<close>

datatype py_error = ZeroDivisionError | KeyError

type_synonym point = "real \<times> real"

definition radians :: "real \<Rightarrow> real" where
  "radians d = d * (pi / 180)"

definition degrees :: "real \<Rightarrow> real" where
  "degrees r = r * (180 / pi)"

definition hypot :: "real \<Rightarrow> real \<Rightarrow> real" where
  "hypot x y = sqrt (x * x + y * y)"

text \<open>
  \<^verbatim>\<open>math.atan2(y, x)\<close>: the angle of the point \<open>(x, y)\<close> in \<open>(-\<pi>, \<pi>]\<close>
  (signed zeros are not modelled).
\<close>

definition atan2 :: "real \<Rightarrow> real \<Rightarrow> real" where
  "atan2 y x =
     (if 0 < x then arctan (y / x)
      else if x < 0 then (if 0 \<le> y then arctan (y / x) + pi else arctan (y / x) - pi)
      else if 0 < y then pi / 2
      else if y < 0 then - (pi / 2)
      else 0)"

subsection \<open>The drawing functions\<close>

text \<open>
  \<^verbatim>\<open>draw_triangle(base, alpha_deg, beta_deg)\<close>: \<open>Inr None\<close> is the source's
  \<^verbatim>\<open>return None\<close>; \<open>Inl ZeroDivisionError\<close> is the division \<^verbatim>\<open>c / math.sin(gamma)\<close>
  raising.
\<close>

definition draw_triangle :: "real \<Rightarrow> real \<Rightarrow> real \<Rightarrow> py_error + point list option" where
  "draw_triangle base alpha_deg beta_deg =
     (let alpha = radians alpha_deg;
          beta = radians beta_deg;
          gamma = radians (180 - alpha_deg - beta_deg)
      in if gamma \<le> 0 then Inr None
         else if sin gamma = 0 then Inl ZeroDivisionError
         else
           let c = base;
               s = c / sin gamma;
               a = s * sin alpha;
               b = s * sin beta;
               A = (0, 0);
               B = (c, 0);
               C = (b * cos alpha, b * sin alpha)
           in Inr (Some [A, B, C]))"

text \<open>
  \<^verbatim>\<open>draw_parallelogram(width, height, angle_deg)\<close>. The division is guarded by
  \<^verbatim>\<open>abs(math.tan(angle)) > 1e-6\<close>, so it cannot raise. Where \<open>cos angle = 0\<close> the real
  tangent does not exist and \<^term>\<open>tan\<close> is \<open>0\<close> in HOL; no float is such an angle, and
  the theorems below say nothing there.
\<close>

definition draw_parallelogram :: "real \<Rightarrow> real \<Rightarrow> real \<Rightarrow> point list" where
  "draw_parallelogram width height angle_deg =
     (let angle = radians angle_deg;
          A = (0, 0);
          B = (width, 0);
          dx = (if \<bar>tan angle\<bar> > 1 / 10 ^ 6 then height / tan angle else 0);
          D = (dx, height);
          C = (width + dx, height)
      in [A, B, C, D])"

definition draw_rectangle :: "real \<Rightarrow> real \<Rightarrow> point list" where
  "draw_rectangle width height =
     (let A = (0, 0);
          B = (width, 0);
          C = (width, height);
          D = (0, height)
      in [A, B, C, D])"

text \<open>
  \<^verbatim>\<open>np.linspace(start, stop, num)\<close> with its default \<^verbatim>\<open>endpoint=True\<close>, as numpy
  documents and implements it: \<open>num\<close> samples \<open>start + i * step\<close> with
  \<open>step = (stop - start) / (num - 1)\<close>, the last one set to \<open>stop\<close>; one sample is
  \<open>start\<close>; none is the empty array.
\<close>

definition linspace :: "real \<Rightarrow> real \<Rightarrow> nat \<Rightarrow> real list" where
  "linspace start stop num =
     (if num = 0 then []
      else if num = 1 then [start]
      else
        let step = (stop - start) / real (num - 1)
        in map (\<lambda>i. real i * step + start) [0..<num - 1] @ [stop])"

text \<open>
  \<^verbatim>\<open>draw_circle(radius, num_points=80)\<close> returns the two coordinate arrays. The number
  of samples is a natural number here (numpy rejects a negative one).
\<close>

definition draw_circle :: "real \<Rightarrow> nat \<Rightarrow> real list \<times> real list" where
  "draw_circle radius num_points =
     (let thetas = linspace 0 (2 * pi) num_points;
          xs = map (\<lambda>t. radius * cos t) thetas;
          ys = map (\<lambda>t. radius * sin t) thetas
      in (xs, ys))"

subsection \<open>Tab 1: the quadrilateral branch and the side lengths\<close>

datatype quad_type = Rectangle | Parallelogram | Rhombus

text \<open>
  The \<^verbatim>\<open>if quad_type == ... elif ... else\<close> chain that computes \<^verbatim>\<open>pts\<close> from the
  three sliders \<^verbatim>\<open>width\<close>, \<^verbatim>\<open>height\<close> and \<^verbatim>\<open>angle\<close>. In the rhombus branch
  \<^verbatim>\<open>side / 2 if side != 0 else 1\<close> is the second argument of \<^verbatim>\<open>math.atan2\<close>.
\<close>

definition quad_pts :: "quad_type \<Rightarrow> real \<Rightarrow> real \<Rightarrow> real \<Rightarrow> point list" where
  "quad_pts quad_type width height angle =
     (if quad_type = Rectangle then draw_rectangle width height
      else if quad_type = Rhombus then
        let side = width;
            angle_for_rhombus = degrees (atan2 height (if side \<noteq> 0 then side / 2 else 1))
        in draw_parallelogram side height angle_for_rhombus
      else draw_parallelogram width height angle)"

text \<open>The local \<^verbatim>\<open>dist(p, q)\<close> of the triangle branch.\<close>

definition dist_pts :: "point \<Rightarrow> point \<Rightarrow> real" where
  "dist_pts p q = hypot (fst p - fst q) (snd p - snd q)"

text \<open>
  The interior angle at vertex \<open>p\<close> of the triangle \<open>p q r\<close>, recomputed from the
  coordinates as the specification's test describes it: the angle, in degrees, between
  the vectors from \<open>p\<close> to \<open>q\<close> and from \<open>p\<close> to \<open>r\<close>. It is not part of the source.
\<close>

definition interior_angle_deg :: "point \<Rightarrow> point \<Rightarrow> point \<Rightarrow> real" where
  "interior_angle_deg p q r =
     degrees (arccos (((fst q - fst p) * (fst r - fst p) + (snd q - snd p) * (snd r - snd p))
                      / (dist_pts p q * dist_pts p r)))"

subsection \<open>Tab 3: the quiz and its session state\<close>

text \<open>
  \<^verbatim>\<open>st.session_state\<close> as the script uses it: the keys \<^verbatim>\<open>'score'\<close> and \<^verbatim>\<open>'total'\<close>
  (\<open>None\<close> while the key is absent) and the flags \<^verbatim>\<open>'answered_name'\<close>,
  \<^verbatim>\<open>'answered_1'\<close>, ... under their key strings. The script stores integers under
  the first two keys and \<^verbatim>\<open>True\<close> under the others; the widget keys \<^verbatim>\<open>ox1\<close>, ...,
  \<^verbatim>\<open>submit1\<close>, ... that the framework keeps in the same dictionary are never read
  through it and are left out.
\<close>

record session_state =
  score :: "int option"
  total :: "int option"
  answered :: "string \<rightharpoonup> bool"

text \<open>A new session starts with nothing stored.\<close>

definition empty_session :: session_state where
  "empty_session = \<lparr>score = None, total = None, answered = Map.empty\<rparr>"

text \<open>The three shapes of the naming quiz, the select box with its placeholder, and the radio \<^verbatim>\<open>["O", "X"]\<close>.\<close>

datatype shape_name = Triangle | Quadrilateral | Circle

datatype answer = Unselected | Named shape_name

datatype ox = Pick_O | Pick_X

text \<open>
  What one run of the script reads from the widgets: the radio \<^verbatim>\<open>quiz_choice\<close>, the
  select box \<^verbatim>\<open>answer\<close>, the check button, and for each OX question its radio and its
  submit button. A button is \<open>True\<close> in the run that its click starts.
\<close>

record widgets =
  quiz_choice :: shape_name
  answer :: answer
  name_button :: bool
  ox_choice :: "nat \<Rightarrow> ox"
  ox_button :: "nat \<Rightarrow> bool"

text \<open>\<^verbatim>\<open>if 'score' not in st.session_state: ...\<close> and the same for \<^verbatim>\<open>'total'\<close>.\<close>

definition init_counters :: "session_state \<Rightarrow> session_state" where
  "init_counters s =
     (let s1 = (if score s = None then s\<lparr>score := Some 0\<rparr> else s);
          s2 = (if total s1 = None then s1\<lparr>total := Some 0\<rparr> else s1)
      in s2)"

text \<open>\<^verbatim>\<open>st.session_state.get(key, False)\<close>.\<close>

definition get_flag :: "session_state \<Rightarrow> string \<Rightarrow> bool" where
  "get_flag s key = (case answered s key of None \<Rightarrow> False | Some b \<Rightarrow> b)"

text \<open>\<^verbatim>\<open>st.session_state['total'] += 1\<close> and \<^verbatim>\<open>st.session_state['score'] += 1\<close>.\<close>

definition incr_total :: "session_state \<Rightarrow> py_error + session_state" where
  "incr_total s =
     (case total s of None \<Rightarrow> Inl KeyError | Some n \<Rightarrow> Inr (s\<lparr>total := Some (n + 1)\<rparr>))"

definition incr_score :: "session_state \<Rightarrow> py_error + session_state" where
  "incr_score s =
     (case score s of None \<Rightarrow> Inl KeyError | Some n \<Rightarrow> Inr (s\<lparr>score := Some (n + 1)\<rparr>))"

text \<open>The body of \<^verbatim>\<open>if st.button(...)\<close> of the naming quiz (the messages are not modelled).\<close>

definition name_submit :: "shape_name \<Rightarrow> answer \<Rightarrow> session_state \<Rightarrow> py_error + session_state" where
  "name_submit choice ans s =
     (if \<not> get_flag s ''answered_name'' then
        case incr_total s of
          Inl e \<Rightarrow> Inl e
        | Inr s1 \<Rightarrow>
            let s2 = s1\<lparr>answered := (answered s1)(''answered_name'' \<mapsto> True)\<rparr>
            in if ans = Named choice then incr_score s2 else Inr s2
      else Inr s)"

text \<open>The decimal digits of \<open>i\<close>, as the f-string \<^verbatim>\<open>f"answered_{i}"\<close> formats them.\<close>

function format_nat :: "nat \<Rightarrow> string" where
  "format_nat n =
     (if n < 10 then [''0123456789'' ! n]
      else format_nat (n div 10) @ [''0123456789'' ! (n mod 10)])"
  by pat_completeness auto
termination
  by (relation "measure id") auto

declare format_nat.simps [simp del]

text \<open>The body of \<^verbatim>\<open>if st.button(f"...{i}")\<close> of OX question \<open>i\<close>.\<close>

definition ox_submit :: "nat \<Rightarrow> bool \<Rightarrow> ox \<Rightarrow> session_state \<Rightarrow> py_error + session_state" where
  "ox_submit i correct choice s =
     (let answered_key = ''answered_'' @ format_nat i
      in if \<not> get_flag s answered_key then
           case incr_total s of
             Inl e \<Rightarrow> Inl e
           | Inr s1 \<Rightarrow>
               let s2 = s1\<lparr>answered := (answered s1)(answered_key \<mapsto> True)\<rparr>;
                   picked = (if choice = Pick_O then True else False)
               in if picked = correct then incr_score s2 else Inr s2
         else Inr s)"

text \<open>
  \<^verbatim>\<open>ox_qs\<close>: statement, correct answer, hint (the Korean texts are given in English; only
  the truth value is used in the computation).
\<close>

definition ox_qs :: "(string \<times> bool \<times> string) list" where
  "ox_qs =
     [(''A square is always a rectangle.'', True,
       ''All four angles of a square are right angles.''),
      (''Every parallelogram is a trapezoid.'', True,
       ''A trapezoid needs only one pair of parallel sides.''),
      (''Every rhombus is a rectangle.'', False,
       ''The angles of a rhombus need not be right angles.'')]"

text \<open>\<^verbatim>\<open>for i, (q, correct, hint) in enumerate(ox_qs, 1): ...\<close>\<close>

fun ox_loop ::
  "widgets \<Rightarrow> (nat \<times> string \<times> bool \<times> string) list \<Rightarrow> session_state \<Rightarrow> py_error + session_state"
where
  "ox_loop w [] s = Inr s"
| "ox_loop w ((i, q, correct, hint) # rest) s =
     (if ox_button w i then
        case ox_submit i correct (ox_choice w i) s of
          Inl e \<Rightarrow> Inl e
        | Inr s' \<Rightarrow> ox_loop w rest s'
      else ox_loop w rest s)"

text \<open>One run of the quiz tab: the counters, the naming quiz, the OX loop.\<close>

definition quiz_run :: "widgets \<Rightarrow> session_state \<Rightarrow> py_error + session_state" where
  "quiz_run w s =
     (let s0 = init_counters s
      in case (if name_button w then name_submit (quiz_choice w) (answer w) s0 else Inr s0) of
           Inl e \<Rightarrow> Inl e
         | Inr s1 \<Rightarrow> ox_loop w (enumerate 1 ox_qs) s1)"

text \<open>A session: the script runs once for each interaction, on the state the last run left.\<close>

fun session :: "widgets list \<Rightarrow> session_state \<Rightarrow> py_error + session_state" where
  "session [] s = Inr s"
| "session (w # ws) s =
     (case quiz_run w s of Inl e \<Rightarrow> Inl e | Inr s' \<Rightarrow> session ws s')"

text \<open>
  The relation that the proofs below maintain between a state and a later one: both hold
  their counters, neither counter has decreased, the score has grown by no more than the
  total, and every flag that read true still does.
\<close>

definition advances :: "session_state \<Rightarrow> session_state \<Rightarrow> bool" where
  "advances s s' \<longleftrightarrow>
     (\<exists>sc t sc' t'. score s = Some sc \<and> total s = Some t
        \<and> score s' = Some sc' \<and> total s' = Some t'
        \<and> sc \<le> sc' \<and> t \<le> t' \<and> sc' - sc \<le> t' - t)
     \<and> (\<forall>key. get_flag s key \<longrightarrow> get_flag s' key)"

section \<open>Angles\<close>

lemma radians_degrees: "radians (degrees r) = r"
  by (simp add: radians_def degrees_def)

lemma radians_pos_iff: "0 < radians d \<longleftrightarrow> 0 < d"
  by (simp add: radians_def zero_less_mult_iff)

lemma radians_nonpos_iff: "radians d \<le> 0 \<longleftrightarrow> d \<le> 0"
  using radians_pos_iff [of d] by (simp only: not_less [symmetric])

lemma radians_less_pi_iff: "radians d < pi \<longleftrightarrow> d < 180"
proof -
  have "radians d < pi \<longleftrightarrow> d * (pi / 180) < 180 * (pi / 180)"
    by (simp add: radians_def)
  also have "\<dots> \<longleftrightarrow> d < 180"
    by (rule mult_less_cancel_right_pos) simp
  finally show ?thesis .
qed

lemma radians_diff: "radians (180 - a - b) = pi - radians a - radians b"
  by (simp add: radians_def algebra_simps)

section \<open>The triangle\<close>

text \<open>
  Claim C5. Whenever the two angles sum to 180 degrees or more, \<^verbatim>\<open>draw_triangle\<close>
  takes its \<^verbatim>\<open>return None\<close> branch, for every base: no vertex is computed.
\<close>

theorem draw_triangle_degenerate:
  "180 \<le> alpha_deg + beta_deg \<Longrightarrow> draw_triangle base alpha_deg beta_deg = Inr None"
  by (simp add: draw_triangle_def Let_def radians_nonpos_iff)

theorem draw_triangle_degenerate_witness:
  "(180::real) \<le> 100 + 80 \<and> draw_triangle 4 100 80 = Inr None"
  using draw_triangle_degenerate [of 100 80 4] by simp

lemma sin_gamma_pos:
  assumes "0 < a" "0 < b" "a + b < 180"
  shows "0 < sin (radians (180 - a - b))"
proof (rule sin_gt_zero)
  show "0 < radians (180 - a - b)" using assms by (simp add: radians_pos_iff)
  show "radians (180 - a - b) < pi" using assms by (simp add: radians_less_pi_iff)
qed

text \<open>
  Claim C10. For positive angles that sum to less than 180 degrees the guard
  \<^verbatim>\<open>gamma <= 0\<close> is not taken, \<open>sin gamma\<close> is strictly positive, so the division
  \<^verbatim>\<open>c / math.sin(gamma)\<close> does not raise, and a list of exactly three vertices is
  returned.
\<close>

theorem draw_triangle_defined:
  assumes "0 < alpha_deg" "0 < beta_deg" "alpha_deg + beta_deg < 180"
  shows "\<not> radians (180 - alpha_deg - beta_deg) \<le> 0
     \<and> 0 < sin (radians (180 - alpha_deg - beta_deg))
     \<and> (\<exists>A B C. draw_triangle base alpha_deg beta_deg = Inr (Some [A, B, C]))"
proof -
  have g: "\<not> radians (180 - alpha_deg - beta_deg) \<le> 0"
    using assms by (simp add: radians_nonpos_iff)
  have s: "0 < sin (radians (180 - alpha_deg - beta_deg))"
    using assms by (rule sin_gamma_pos)
  from g s show ?thesis
    by (simp add: draw_triangle_def Let_def)
qed

theorem draw_triangle_defined_witness:
  "(0::real) < 50 \<and> (0::real) < 60 \<and> (50::real) + 60 < 180
   \<and> \<not> radians (180 - 50 - 60) \<le> 0
   \<and> 0 < sin (radians (180 - 50 - 60))
   \<and> (\<exists>A B C. draw_triangle 4 50 60 = Inr (Some [A, B, C]))"
  using draw_triangle_defined [of 50 60 4] by simp

lemma degrees_radians: "degrees (radians d) = d"
  by (simp add: radians_def degrees_def)

lemma hypot_scaled:
  assumes "0 \<le> k" and "x * x + y * y = 1"
  shows "hypot (k * x) (k * y) = k"
proof -
  have "(k * x) * (k * x) + (k * y) * (k * y) = k\<^sup>2 * (x * x + y * y)"
    by (simp add: power2_eq_square algebra_simps)
  with assms show ?thesis
    by (simp add: hypot_def)
qed

lemma sin_cos_unit: "cos (t::real) * cos t + sin t * sin t = 1"
  using sin_cos_squared_add2 [of t] by (simp add: power2_eq_square)

lemma dist_pts_sym: "dist_pts p q = dist_pts q p"
proof -
  have "(x - y) * (x - y) = (y - x) * (y - x)" for x y :: real
    by (simp add: algebra_simps)
  then show ?thesis
    by (simp add: dist_pts_def hypot_def)
qed

lemma triangle_geometry:
  fixes c al be :: real
  assumes c: "0 < c" and al: "0 < al" and be: "0 < be" and sum: "al + be < pi"
  defines "ga \<equiv> pi - al - be"
  defines "s \<equiv> c / sin ga"
  defines "a \<equiv> s * sin al"
  defines "b \<equiv> s * sin be"
  defines "A \<equiv> (0::real, 0::real)"
  defines "B \<equiv> (c, 0::real)"
  defines "C \<equiv> (b * cos al, b * sin al)"
  shows "dist_pts A B = c" "dist_pts C A = b" "dist_pts B C = a"
    "0 < a" "0 < b" "0 < s"
    "interior_angle_deg A B C = degrees al"
    "interior_angle_deg B C A = degrees be"
    "interior_angle_deg C A B = degrees ga"
proof -
  have ga: "0 < ga" "ga < pi" using al be sum by (simp_all add: ga_def)
  have sg: "0 < sin ga" using ga by (rule sin_gt_zero)
  have sa: "0 < sin al" using al be sum by (intro sin_gt_zero) simp_all
  have sb: "0 < sin be" using al be sum by (intro sin_gt_zero) simp_all
  show s: "0 < s" using c sg by (simp add: s_def)
  show a: "0 < a" using s sa by (simp add: a_def)
  show b: "0 < b" using s sb by (simp add: b_def)
  have sin_ga: "sin ga = sin al * cos be + cos al * sin be"
    by (simp add: ga_def sin_diff sin_add cos_add algebra_simps)
  have cos_ga: "cos ga = sin al * sin be - cos al * cos be"
    by (simp add: ga_def cos_diff cos_add sin_add algebra_simps)
  have c_eq: "c = s * sin ga" using sg by (simp add: s_def)
  have bx: "c - b * cos al = a * cos be"
    by (simp add: c_eq sin_ga a_def b_def algebra_simps)
  have by': "b * sin al = a * sin be"
    by (simp add: a_def b_def)
  show AB: "dist_pts A B = c"
    using c by (simp add: dist_pts_def hypot_def A_def B_def)
  show CA: "dist_pts C A = b"
    using hypot_scaled [of b "cos al" "sin al"] b
    by (simp add: dist_pts_def A_def C_def sin_cos_unit)
  have "dist_pts B C = hypot (a * cos be) (a * sin be)"
    unfolding dist_pts_def B_def C_def fst_conv snd_conv bx by' by (simp add: hypot_def)
  also have "\<dots> = a"
    using hypot_scaled [of a "cos be" "sin be"] a by (simp add: sin_cos_unit)
  finally show BC: "dist_pts B C = a" .
  have AC: "dist_pts A C = b"
    using CA by (simp add: dist_pts_sym)
  have BA: "dist_pts B A = c"
    using AB by (simp add: dist_pts_sym)
  have CB: "dist_pts C B = a"
    using BC by (simp add: dist_pts_sym)
  have "interior_angle_deg A B C = degrees (arccos (cos al))"
    using c b by (simp add: interior_angle_deg_def AB AC) (simp add: A_def B_def C_def)
  also have "arccos (cos al) = al"
    using al be sum by (intro arccos_cos) simp_all
  finally show "interior_angle_deg A B C = degrees al" .
  have "(fst C - fst B) * (fst A - fst B) + (snd C - snd B) * (snd A - snd B)
        = (c - b * cos al) * c"
    by (simp add: A_def B_def C_def algebra_simps)
  then have "interior_angle_deg B C A = degrees (arccos (cos be))"
    using c a by (simp add: interior_angle_deg_def BC BA bx)
  also have "arccos (cos be) = be"
    using al be sum by (intro arccos_cos) simp_all
  finally show "interior_angle_deg B C A = degrees be" .
  have bb: "b * (b * (cos al * cos al)) + b * (b * (sin al * sin al)) = b * b"
  proof -
    have "b * (b * (cos al * cos al)) + b * (b * (sin al * sin al))
          = b * b * (cos al * cos al + sin al * sin al)"
      by (simp only: distrib_left mult.assoc)
    also have "\<dots> = b * b"
      unfolding sin_cos_unit by simp
    finally show ?thesis .
  qed
  have "(fst A - fst C) * (fst B - fst C) + (snd A - snd C) * (snd B - snd C)
        = b * (b - c * cos al)"
    by (simp add: A_def B_def C_def algebra_simps bb)
  also have "b - c * cos al = s * (sin be * (1 - cos al * cos al) - sin al * cos be * cos al)"
    by (simp add: b_def c_eq sin_ga algebra_simps)
  also have "1 - cos al * cos al = sin al * sin al"
    using sin_cos_unit [of al] by linarith
  also have "s * (sin be * (sin al * sin al) - sin al * cos be * cos al) = a * cos ga"
    by (simp add: a_def cos_ga algebra_simps)
  finally have dot: "(fst A - fst C) * (fst B - fst C) + (snd A - snd C) * (snd B - snd C)
        = b * (a * cos ga)" .
  have "interior_angle_deg C A B = degrees (arccos (cos ga))"
    using a b unfolding interior_angle_deg_def dot CA CB by simp
  also have "arccos (cos ga) = ga"
    using ga by (intro arccos_cos) simp_all
  finally show "interior_angle_deg C A B = degrees ga" .
qed

lemma radians_lt_pi_sum:
  assumes "a + b < 180" shows "radians a + radians b < pi"
proof -
  have "radians (a + b) < pi" using assms by (simp add: radians_less_pi_iff)
  then show ?thesis by (simp add: radians_def algebra_simps)
qed

text \<open>
  Claim C6. For a positive base and positive angles that sum to less than 180 degrees the
  result is the list of \<open>A = (0, 0)\<close>, \<open>B = (base, 0)\<close> and
  \<open>C = (b cos \<alpha>, b sin \<alpha>)\<close> with \<open>b = base / sin \<gamma> * sin \<beta>\<close> and
  \<open>\<gamma> = 180 - \<alpha> - \<beta>\<close> degrees, in that order; the interior angles recomputed from
  these coordinates are the two input angles and \<open>\<gamma>\<close>, and the side lengths, measured
  with the source's \<^verbatim>\<open>dist\<close>, satisfy the law of sines.
\<close>

theorem draw_triangle_vertices:
  assumes "0 < base" and "0 < alpha_deg" and "0 < beta_deg" and "alpha_deg + beta_deg < 180"
  shows "let angleC = 180 - alpha_deg - beta_deg;
             b = base / sin (radians angleC) * sin (radians beta_deg);
             A = (0, 0);
             B = (base, 0);
             C = (b * cos (radians alpha_deg), b * sin (radians alpha_deg))
         in draw_triangle base alpha_deg beta_deg = Inr (Some [A, B, C])
            \<and> interior_angle_deg A B C = alpha_deg
            \<and> interior_angle_deg B C A = beta_deg
            \<and> interior_angle_deg C A B = angleC
            \<and> dist_pts B C / sin (radians alpha_deg) = dist_pts C A / sin (radians beta_deg)
            \<and> dist_pts C A / sin (radians beta_deg) = dist_pts A B / sin (radians angleC)"
proof -
  let ?al = "radians alpha_deg" and ?be = "radians beta_deg"
  let ?ga = "radians (180 - alpha_deg - beta_deg)"
  have al: "0 < ?al" and be: "0 < ?be"
    using assms by (simp_all add: radians_pos_iff)
  have sum: "?al + ?be < pi"
    using assms(4) by (rule radians_lt_pi_sum)
  have ga: "?ga = pi - ?al - ?be"
    by (rule radians_diff)
  have gpos: "\<not> ?ga \<le> 0"
    using assms by (simp add: radians_nonpos_iff)
  have sg: "0 < sin ?ga"
    using assms(2-4) by (rule sin_gamma_pos)
  have sa: "0 < sin ?al" using al be sum by (intro sin_gt_zero) simp_all
  have sb: "0 < sin ?be" using al be sum by (intro sin_gt_zero) simp_all
  note geo = triangle_geometry [OF assms(1) al be sum, folded ga]
  have tri: "draw_triangle base alpha_deg beta_deg =
      Inr (Some [(0, 0), (base, 0),
        (base / sin ?ga * sin ?be * cos ?al, base / sin ?ga * sin ?be * sin ?al)])"
    using gpos sg by (simp add: draw_triangle_def Let_def)
  have los1: "base / sin ?ga * sin ?al / sin ?al = base / sin ?ga * sin ?be / sin ?be"
    using sa sb by simp
  have los2: "base / sin ?ga * sin ?be / sin ?be = base / sin ?ga"
    using sb by simp
  show ?thesis
    unfolding Let_def
    using tri geo(1-3,7-9) los1 los2
    by (simp only: degrees_radians)
qed

theorem draw_triangle_vertices_witness:
  "let angleC = 180 - 50 - 60;
       b = 4 / sin (radians angleC) * sin (radians 60);
       A = (0, 0);
       B = (4, 0);
       C = (b * cos (radians 50), b * sin (radians 50))
   in draw_triangle 4 50 60 = Inr (Some [A, B, C])
      \<and> interior_angle_deg A B C = 50
      \<and> interior_angle_deg B C A = 60
      \<and> interior_angle_deg C A B = angleC
      \<and> dist_pts B C / sin (radians 50) = dist_pts C A / sin (radians 60)
      \<and> dist_pts C A / sin (radians 60) = dist_pts A B / sin (radians angleC)"
  using draw_triangle_vertices [of 4 50 60] by simp

section \<open>Quadrilaterals\<close>

text \<open>
  Claim C8. When the tangent of the tilt angle exists and its absolute value is at most
  \<open>10\<^sup>-\<^sup>6\<close> (as at 0 degrees), the shear offset is \<open>0\<close> and
  \<^verbatim>\<open>draw_parallelogram\<close> returns what \<^verbatim>\<open>draw_rectangle\<close> returns for the same width
  and height, the corners \<open>(0,0), (width,0), (width,height), (0,height)\<close>; this holds for
  every width and height.
\<close>

theorem parallelogram_degenerates_to_rectangle:
  assumes "cos (radians angle_deg) \<noteq> 0" and "\<bar>tan (radians angle_deg)\<bar> \<le> 1 / 10 ^ 6"
  shows "draw_parallelogram width height angle_deg = draw_rectangle width height
       \<and> draw_parallelogram width height angle_deg
           = [(0, 0), (width, 0), (width + 0, height), (0, height)]
       \<and> draw_rectangle width height = [(0, 0), (width, 0), (width, height), (0, height)]"
  using assms(2) by (simp add: draw_parallelogram_def draw_rectangle_def Let_def)

theorem parallelogram_degenerates_to_rectangle_witness:
  "cos (radians 0) \<noteq> 0 \<and> \<bar>tan (radians 0)\<bar> \<le> 1 / 10 ^ 6
   \<and> draw_parallelogram 4 2 0 = draw_rectangle 4 2
   \<and> draw_parallelogram 4 2 0 = [(0, 0), (4, 0), (4 + 0, 2), (0, 2)]
   \<and> draw_rectangle 4 2 = [(0, 0), (4, 0), (4, 2), (0, 2)]"
proof -
  have r0: "radians 0 = 0" by (simp add: radians_def)
  have h1: "cos (radians 0) \<noteq> 0" and h2: "\<bar>tan (radians 0)\<bar> \<le> 1 / 10 ^ 6"
    by (simp_all add: r0)
  show ?thesis
    using h1 h2 parallelogram_degenerates_to_rectangle [OF h1 h2, of 4 2] by simp
qed

text \<open>
  Claim C9. The rhombus branch returns the parallelogram of width \<open>sideLength\<close> whose
  tilt angle is \<open>atan2 (height, sideLength / 2)\<close> in degrees, with \<open>1\<close> in place of
  \<open>sideLength / 2\<close> when \<open>sideLength = 0\<close>; the angle slider plays no part.
\<close>

theorem rhombus_is_parallelogram:
  "quad_pts Rhombus sideLength height angle
   = draw_parallelogram sideLength height
       (degrees (atan2 height (if sideLength = 0 then 1 else sideLength / 2)))"
  by (simp add: quad_pts_def Let_def)

theorem rhombus_is_parallelogram_witness:
  "quad_pts Rhombus 0 2 20 = draw_parallelogram 0 2 (degrees (atan2 2 1))"
  using rhombus_is_parallelogram [of 0 2 20] by simp

text \<open>
  With the sliders' positive values the rhombus is the parallelogram sheared by half of its
  side.
\<close>

lemma tan_atan2_pos: "0 < x \<Longrightarrow> tan (atan2 y x) = y / x"
  by (simp add: atan2_def tan_arctan)

lemma rhombus_shear:
  assumes "0 < side" "1 / 10 ^ 6 < 2 * height / side"
  shows "quad_pts Rhombus side height angle
         = [(0, 0), (side, 0), (side + side / 2, height), (side / 2, height)]"
proof -
  have t: "tan (atan2 height (side / 2)) = 2 * height / side"
    using assms(1) by (simp add: tan_atan2_pos)
  have h: "height \<noteq> 0" using assms by auto
  show ?thesis
    using assms h by (simp add: quad_pts_def Let_def draw_parallelogram_def radians_degrees t)
qed

section \<open>The circle\<close>

lemma linspace_80: "linspace 0 (2 * pi) 80 = map (\<lambda>i. real i * (2 * pi / 79)) [0..<80]"
proof -
  have "[0..<Suc 79] = [0..<79] @ [79]"
    by (rule upt_Suc_append) simp
  moreover have "Suc 79 = 80"
    by simp
  ultimately have split: "[0..<80] = [0..<79] @ [79]"
    by simp
  show ?thesis
    unfolding split by (simp add: linspace_def Let_def)
qed

text \<open>
  Claim C7. With 80 samples \<^verbatim>\<open>draw_circle\<close> returns 80 abscissas and 80 ordinates,
  point \<open>i\<close> being \<open>(radius cos \<theta>\<^sub>i, radius sin \<theta>\<^sub>i)\<close> and so on the circle
  \<open>x\<^sup>2 + y\<^sup>2 = radius\<^sup>2\<close>; the angles start at \<open>0\<close>, advance by the constant step
  \<open>2\<pi> / 79\<close> and end at the closing point \<open>2\<pi>\<close>. This holds for every radius.
\<close>

theorem draw_circle_80:
  "draw_circle radius 80
     = (map (\<lambda>i. radius * cos (real i * (2 * pi / 79))) [0..<80],
        map (\<lambda>i. radius * sin (real i * (2 * pi / 79))) [0..<80])
   \<and> length (fst (draw_circle radius 80)) = 80
   \<and> length (snd (draw_circle radius 80)) = 80
   \<and> (\<forall>i<80. (fst (draw_circle radius 80) ! i)\<^sup>2 + (snd (draw_circle radius 80) ! i)\<^sup>2
                 = radius\<^sup>2)
   \<and> linspace 0 (2 * pi) 80 ! 0 = 0
   \<and> linspace 0 (2 * pi) 80 ! 79 = 2 * pi
   \<and> (\<forall>i<79. linspace 0 (2 * pi) 80 ! Suc i - linspace 0 (2 * pi) 80 ! i = 2 * pi / 79)"
proof -
  have c: "draw_circle radius 80
     = (map (\<lambda>i. radius * cos (real i * (2 * pi / 79))) [0..<80],
        map (\<lambda>i. radius * sin (real i * (2 * pi / 79))) [0..<80])"
    by (simp add: draw_circle_def Let_def linspace_80 comp_def)
  have on: "(radius * cos t)\<^sup>2 + (radius * sin t)\<^sup>2 = radius\<^sup>2" for t
  proof -
    have "(radius * cos t)\<^sup>2 + (radius * sin t)\<^sup>2 = radius\<^sup>2 * ((cos t)\<^sup>2 + (sin t)\<^sup>2)"
      by (simp only: power_mult_distrib distrib_left)
    then show ?thesis by simp
  qed
  have sp: "real (Suc i) * (2 * pi / 79) - real i * (2 * pi / 79) = 2 * pi / 79" for i
    by (simp add: algebra_simps)
  show ?thesis
    unfolding c linspace_80 using on sp by (simp del: of_nat_Suc)
qed

theorem draw_circle_80_witness:
  "(fst (draw_circle 2 80) ! 0)\<^sup>2 + (snd (draw_circle 2 80) ! 0)\<^sup>2 = 2\<^sup>2
   \<and> linspace 0 (2 * pi) 80 ! Suc 0 - linspace 0 (2 * pi) 80 ! 0 = 2 * pi / 79
   \<and> length (fst (draw_circle 2 80)) = 80"
proof -
  note c = draw_circle_80 [of 2]
  from c have on: "\<forall>i<80. (fst (draw_circle 2 80) ! i)\<^sup>2 + (snd (draw_circle 2 80) ! i)\<^sup>2 = 2\<^sup>2"
    by (elim conjE)
  from c have sp: "\<forall>i<79. linspace 0 (2 * pi) 80 ! Suc i - linspace 0 (2 * pi) 80 ! i = 2 * pi / 79"
    by (elim conjE)
  from c have len: "length (fst (draw_circle 2 80)) = 80"
    by (elim conjE)
  have "(0::nat) < 80" and "(0::nat) < 79" by simp_all
  with on sp have "(fst (draw_circle 2 80) ! 0)\<^sup>2 + (snd (draw_circle 2 80) ! 0)\<^sup>2 = 2\<^sup>2"
    and "linspace 0 (2 * pi) 80 ! Suc 0 - linspace 0 (2 * pi) 80 ! 0 = 2 * pi / 79"
    by blast+
  with len show ?thesis by blast
qed

section \<open>No validation of dimensions or angles\<close>

lemma length_linspace: "length (linspace start stop num) = num"
  by (simp add: linspace_def Let_def)

lemma length_draw_circle:
  "length (fst (draw_circle radius n)) = n" "length (snd (draw_circle radius n)) = n"
  by (simp_all add: draw_circle_def Let_def length_linspace)

lemma draw_triangle_None_iff:
  "draw_triangle base a b = Inr None \<longleftrightarrow> 180 \<le> a + b"
  by (auto simp add: draw_triangle_def Let_def radians_nonpos_iff)

lemma draw_triangle_Some:
  assumes "a + b < 180" and "sin (radians (180 - a - b)) \<noteq> 0"
  shows "draw_triangle base a b =
     Inr (Some [(0, 0), (base, 0),
       (base / sin (radians (180 - a - b)) * sin (radians b) * cos (radians a),
        base / sin (radians (180 - a - b)) * sin (radians b) * sin (radians a))])"
proof -
  have "\<not> radians (180 - a - b) \<le> 0"
    using assms(1) by (simp add: radians_nonpos_iff)
  with assms(2) show ?thesis
    by (simp add: draw_triangle_def Let_def)
qed

lemma sin_radians_nonzero:
  assumes "0 < d" and "d < 180"
  shows "sin (radians d) \<noteq> 0"
proof -
  have "0 < sin (radians d)"
    using assms by (intro sin_gt_zero) (simp_all add: radians_pos_iff radians_less_pi_iff)
  then show ?thesis by simp
qed

text \<open>
  Claim C1 says that a non-positive length, radius or angle yields a typed error instead
  of coordinates. The functions have no such check: a rectangle of width \<open>-1\<close>, a
  triangle of base \<open>-1\<close> and a triangle with an angle of \<open>-10\<close> degrees all return
  their vertices.
\<close>

theorem no_dimension_check_counterexample:
  "draw_rectangle (- 1) 2 = [(0, 0), (- 1, 0), (- 1, 2), (0, 2)]
   \<and> draw_triangle (- 1) 50 60 =
       Inr (Some [(0, 0), (- 1, 0),
         (- 1 / sin (radians 70) * sin (radians 60) * cos (radians 50),
          - 1 / sin (radians 70) * sin (radians 60) * sin (radians 50))])
   \<and> draw_triangle 4 (- 10) 60 =
       Inr (Some [(0, 0), (4, 0),
         (4 / sin (radians 130) * sin (radians 60) * cos (radians (- 10)),
          4 / sin (radians 130) * sin (radians 60) * sin (radians (- 10)))])"
proof -
  have s70: "sin (radians (180 - 50 - 60)) \<noteq> 0"
    by (rule sin_radians_nonzero) simp_all
  have s130: "sin (radians (180 - (- 10) - 60)) \<noteq> 0"
    by (rule sin_radians_nonzero) simp_all
  have t1: "draw_triangle (- 1) 50 60 =
       Inr (Some [(0, 0), (- 1, 0),
         (- 1 / sin (radians 70) * sin (radians 60) * cos (radians 50),
          - 1 / sin (radians 70) * sin (radians 60) * sin (radians 50))])"
    using draw_triangle_Some [OF _ s70, of "- 1"] by simp
  have t2: "draw_triangle 4 (- 10) 60 =
       Inr (Some [(0, 0), (4, 0),
         (4 / sin (radians 130) * sin (radians 60) * cos (radians (- 10)),
          4 / sin (radians 130) * sin (radians 60) * sin (radians (- 10)))])"
    using draw_triangle_Some [OF _ s130, of 4] by simp
  have r: "draw_rectangle (- 1) 2 = [(0, 0), (- 1, 0), (- 1, 2), (0, 2)]"
    by (simp add: draw_rectangle_def)
  from r t1 t2 show ?thesis by (intro conjI)
qed

text \<open>
  Claim C1 as amended. The only failure result is the \<^verbatim>\<open>None\<close> of
  \<^verbatim>\<open>draw_triangle\<close>, returned exactly when the two angles sum to 180 degrees or more.
  Otherwise, where \<open>sin \<gamma> \<noteq> 0\<close>, three vertices are returned whatever the signs of the
  base and of the angles; the rectangle and the parallelogram return their four corners
  and the circle its samples for every width, height and radius, positive or not.
\<close>

theorem no_dimension_check:
  "(draw_triangle base alpha_deg beta_deg = Inr None \<longleftrightarrow> 180 \<le> alpha_deg + beta_deg)
   \<and> (alpha_deg + beta_deg < 180 \<longrightarrow> sin (radians (180 - alpha_deg - beta_deg)) \<noteq> 0 \<longrightarrow>
        (\<exists>A B C. draw_triangle base alpha_deg beta_deg = Inr (Some [A, B, C])))
   \<and> draw_rectangle width height = [(0, 0), (width, 0), (width, height), (0, height)]
   \<and> (\<exists>dx. draw_parallelogram width height angle_deg
             = [(0, 0), (width, 0), (width + dx, height), (dx, height)])
   \<and> length (fst (draw_circle radius num_points)) = num_points
   \<and> length (snd (draw_circle radius num_points)) = num_points"
proof (intro conjI impI)
  show "draw_triangle base alpha_deg beta_deg = Inr None \<longleftrightarrow> 180 \<le> alpha_deg + beta_deg"
    by (rule draw_triangle_None_iff)
  show "\<exists>A B C. draw_triangle base alpha_deg beta_deg = Inr (Some [A, B, C])"
    if "alpha_deg + beta_deg < 180" "sin (radians (180 - alpha_deg - beta_deg)) \<noteq> 0"
    using draw_triangle_Some [OF that, of base] by blast
  show "draw_rectangle width height = [(0, 0), (width, 0), (width, height), (0, height)]"
    by (simp add: draw_rectangle_def)
  show "\<exists>dx. draw_parallelogram width height angle_deg
             = [(0, 0), (width, 0), (width + dx, height), (dx, height)]"
    by (simp add: draw_parallelogram_def Let_def)
  show "length (fst (draw_circle radius num_points)) = num_points"
    and "length (snd (draw_circle radius num_points)) = num_points"
    by (rule length_draw_circle)+
qed

theorem no_dimension_check_witness:
  "(50::real) + 60 < 180 \<and> sin (radians (180 - 50 - 60)) \<noteq> 0
   \<and> draw_triangle (- 1) 50 60 \<noteq> Inr None
   \<and> (\<exists>A B C. draw_triangle (- 1) 50 60 = Inr (Some [A, B, C]))
   \<and> draw_rectangle (- 1) 0 = [(0, 0), (- 1, 0), (- 1, 0), (0, 0)]
   \<and> length (fst (draw_circle (- 2) 80)) = 80"
proof -
  have h1: "(50::real) + 60 < 180" by simp
  have h2: "sin (radians (180 - 50 - 60)) \<noteq> 0"
    by (rule sin_radians_nonzero) simp_all
  note t = no_dimension_check [of "- 1" 50 60 "- 1" 0 0 "- 2" 80]
  from t h1 have "draw_triangle (- 1) 50 60 \<noteq> Inr None" by simp
  moreover from t h1 h2 have "\<exists>A B C. draw_triangle (- 1) 50 60 = Inr (Some [A, B, C])" by blast
  moreover from t have "draw_rectangle (- 1) 0 = [(0, 0), (- 1, 0), (- 1, 0), (0, 0)]" by blast
  moreover from t have "length (fst (draw_circle (- 2) 80)) = 80" by blast
  ultimately show ?thesis using h1 h2 by blast
qed

section \<open>The quiz session\<close>

lemma init_counters_id: "score s = Some sc \<Longrightarrow> total s = Some t \<Longrightarrow> init_counters s = s"
  by (simp add: init_counters_def)

lemma init_counters_empty:
  "init_counters empty_session = \<lparr>score = Some 0, total = Some 0, answered = Map.empty\<rparr>"
  by (simp add: init_counters_def empty_session_def)

lemma advances_refl: "score s = Some sc \<Longrightarrow> total s = Some t \<Longrightarrow> advances s s"
  by (simp add: advances_def)

lemma advances_trans: "advances s s' \<Longrightarrow> advances s' s'' \<Longrightarrow> advances s s''"
proof -
  assume a: "advances s s'" and b: "advances s' s''"
  from a obtain sc t sc' t' where 1: "score s = Some sc" "total s = Some t"
      "score s' = Some sc'" "total s' = Some t'" "sc \<le> sc'" "t \<le> t'" "sc' - sc \<le> t' - t"
    unfolding advances_def by blast
  from b 1 obtain sc'' t'' where 2: "score s'' = Some sc''" "total s'' = Some t''"
      "sc' \<le> sc''" "t' \<le> t''" "sc'' - sc' \<le> t'' - t'"
    unfolding advances_def by auto
  from a b have f: "\<forall>key. get_flag s key \<longrightarrow> get_flag s'' key"
    unfolding advances_def by blast
  have "sc \<le> sc''" "t \<le> t''" "sc'' - sc \<le> t'' - t"
    using 1(5-7) 2(3-5) by linarith+
  with 1(1,2) 2(1,2) f show "advances s s''"
    unfolding advances_def by blast
qed

lemma name_submit_eq:
  assumes "score s = Some sc" and "total s = Some t"
  shows "name_submit choice ans s =
     Inr (if get_flag s ''answered_name'' then s
          else s\<lparr>score := Some (if ans = Named choice then sc + 1 else sc),
                 total := Some (t + 1),
                 answered := (answered s)(''answered_name'' \<mapsto> True)\<rparr>)"
  using assms by (simp add: name_submit_def incr_total_def incr_score_def Let_def)

lemma ox_submit_eq:
  assumes "score s = Some sc" and "total s = Some t"
  shows "ox_submit i correct choice s =
     Inr (if get_flag s (''answered_'' @ format_nat i) then s
          else s\<lparr>score := Some (if (choice = Pick_O) = correct then sc + 1 else sc),
                 total := Some (t + 1),
                 answered := (answered s)(''answered_'' @ format_nat i \<mapsto> True)\<rparr>)"
  using assms by (simp add: ox_submit_def incr_total_def incr_score_def Let_def)

lemma name_submit_advances:
  assumes "score s = Some sc" and "total s = Some t"
  shows "\<exists>s'. name_submit choice ans s = Inr s' \<and> advances s s'"
  unfolding name_submit_eq [OF assms] using assms
  by (simp add: advances_def get_flag_def)

lemma ox_submit_advances:
  assumes "score s = Some sc" and "total s = Some t"
  shows "\<exists>s'. ox_submit i correct choice s = Inr s' \<and> advances s s'"
  unfolding ox_submit_eq [OF assms] using assms
  by (simp add: advances_def get_flag_def)

lemma advances_counters:
  "advances s s' \<Longrightarrow> \<exists>sc t. score s' = Some sc \<and> total s' = Some t"
  by (auto simp add: advances_def)

lemma ox_loop_advances:
  assumes "score s = Some sc" and "total s = Some t"
  shows "\<exists>s'. ox_loop w qs s = Inr s' \<and> advances s s'"
  using assms
proof (induction qs arbitrary: s sc t)
  case Nil
  then show ?case by (simp add: advances_refl)
next
  case (Cons q qs)
  obtain i qt c hnt where q: "q = (i, qt, c, hnt)"
    by (cases q) auto
  show ?case
  proof (cases "ox_button w i")
    case False
    with Cons q show ?thesis by simp
  next
    case True
    from ox_submit_advances [OF Cons.prems]
    obtain s1 where s1: "ox_submit i c (ox_choice w i) s = Inr s1" "advances s s1"
      by blast
    from advances_counters [OF s1(2)]
    obtain sc1 t1 where c1: "score s1 = Some sc1" "total s1 = Some t1" by blast
    from Cons.IH [OF c1]
    obtain s2 where s2: "ox_loop w qs s1 = Inr s2" "advances s1 s2" by blast
    from s1(1) s2(1) True q advances_trans [OF s1(2) s2(2)] show ?thesis
      by simp
  qed
qed

lemma quiz_run_advances:
  assumes "score s = Some sc" and "total s = Some t"
  shows "\<exists>s'. quiz_run w s = Inr s' \<and> advances s s'"
proof -
  have i: "init_counters s = s" using assms by (rule init_counters_id)
  obtain s1 where s1:
    "(if name_button w then name_submit (quiz_choice w) (answer w) s else Inr s) = Inr s1"
    "advances s s1"
    using name_submit_advances [OF assms] advances_refl [OF assms] by (cases "name_button w") auto
  from advances_counters [OF s1(2)]
  obtain sc1 t1 where c1: "score s1 = Some sc1" "total s1 = Some t1" by blast
  from ox_loop_advances [OF c1]
  obtain s2 where s2: "ox_loop w (enumerate 1 ox_qs) s1 = Inr s2" "advances s1 s2" by blast
  from s1(1) s2(1) advances_trans [OF s1(2) s2(2)] show ?thesis
    by (simp add: quiz_run_def i Let_def)
qed

lemma session_advances:
  assumes "score s = Some sc" and "total s = Some t"
  shows "\<exists>s'. session ws s = Inr s' \<and> advances s s'"
  using assms
proof (induction ws arbitrary: s sc t)
  case Nil
  then show ?case by (simp add: advances_refl)
next
  case (Cons w ws)
  from quiz_run_advances [OF Cons.prems]
  obtain s1 where s1: "quiz_run w s = Inr s1" "advances s s1" by blast
  from advances_counters [OF s1(2)]
  obtain sc1 t1 where c1: "score s1 = Some sc1" "total s1 = Some t1" by blast
  from Cons.IH [OF c1]
  obtain s2 where s2: "session ws s1 = Inr s2" "advances s1 s2" by blast
  from s1(1) s2(1) advances_trans [OF s1(2) s2(2)] show ?case
    by simp
qed

lemma session_append:
  "session (ws @ ws') s = (case session ws s of Inl e \<Rightarrow> Inl e | Inr s' \<Rightarrow> session ws' s')"
  by (induction ws arbitrary: s) (simp_all split: sum.splits)

lemma enumerate_ox_qs:
  "\<exists>q1 h1 q2 h2 q3 h3.
     enumerate 1 ox_qs = [(1, q1, True, h1), (2, q2, True, h2), (3, q3, False, h3)]"
  by (simp add: ox_qs_def)

lemma ox_qs_correct:
  "fst (snd (ox_qs ! 0)) = True" "fst (snd (ox_qs ! Suc 0)) = True" "fst (snd (ox_qs ! 2)) = False"
  by (simp_all add: ox_qs_def)

lemma ox_loop_single:
  assumes "i \<in> {1, 2, 3}" and "ox_button w i" and "\<forall>j. j \<noteq> i \<longrightarrow> \<not> ox_button w j"
  shows "ox_loop w (enumerate 1 ox_qs) s
         = ox_submit i (fst (snd (ox_qs ! (i - 1)))) (ox_choice w i) s"
proof -
  obtain q1 h1 q2 h2 q3 h3 where
    e: "enumerate 1 ox_qs = [(1, q1, True, h1), (2, q2, True, h2), (3, q3, False, h3)]"
    using enumerate_ox_qs by blast
  from assms(1) consider "i = 1" | "i = 2" | "i = 3" by auto
  then show ?thesis
  proof cases
    case 1
    with assms(3) have "\<not> ox_button w 2" "\<not> ox_button w 3" by simp_all
    with 1 assms(2) show ?thesis
      unfolding e by (simp add: ox_qs_correct split: sum.splits)
  next
    case 2
    with assms(3) have "\<not> ox_button w 1" "\<not> ox_button w 3" by simp_all
    with 2 assms(2) show ?thesis
      unfolding e by (simp add: ox_qs_correct split: sum.splits)
  next
    case 3
    with assms(3) have "\<not> ox_button w 1" "\<not> ox_button w 2" by simp_all
    with 3 assms(2) show ?thesis
      unfolding e by (simp add: ox_qs_correct split: sum.splits)
  qed
qed

lemma ox_loop_none:
  assumes "\<forall>i. \<not> ox_button w i"
  shows "ox_loop w qs s = Inr s"
  using assms by (induction qs) auto

lemma session_flag_kept:
  assumes "score s = Some sc" and "total s = Some t"
    and "get_flag s key" and "session ws s = Inr s'"
  shows "get_flag s' key"
proof -
  from session_advances [OF assms(1,2), of ws] assms(4) have "advances s s'" by simp
  with assms(3) show ?thesis by (simp add: advances_def)
qed

text \<open>
  Claim C3. In a state that holds its counters, the run started by a click on the check
  button of the naming quiz, or on the submit button of OX question \<open>i\<close>, does this:
  if the question's flag does not read true, it sets the flag, adds 1 to the total, and
  adds 1 to the score exactly when the answer is correct; if the flag reads true, the
  state is left as it is. A flag that reads true reads true after every further sequence
  of runs. The OX questions are those of \<^verbatim>\<open>ox_qs\<close>, numbered 1 to 3; a click makes
  one button true in the run it starts.
\<close>

theorem submit_counts_once:
  assumes "score s = Some sc" and "total s = Some t"
  shows "(name_button w \<and> (\<forall>i. \<not> ox_button w i) \<longrightarrow>
            quiz_run w s =
              Inr (if get_flag s ''answered_name'' then s
                   else s\<lparr>score := Some (if answer w = Named (quiz_choice w) then sc + 1 else sc),
                          total := Some (t + 1),
                          answered := (answered s)(''answered_name'' \<mapsto> True)\<rparr>))
       \<and> (i \<in> {1, 2, 3} \<and> \<not> name_button w \<and> ox_button w i
            \<and> (\<forall>j. j \<noteq> i \<longrightarrow> \<not> ox_button w j) \<longrightarrow>
            quiz_run w s =
              Inr (if get_flag s (''answered_'' @ format_nat i) then s
                   else s\<lparr>score := Some (if (ox_choice w i = Pick_O) = fst (snd (ox_qs ! (i - 1)))
                                         then sc + 1 else sc),
                          total := Some (t + 1),
                          answered := (answered s)(''answered_'' @ format_nat i \<mapsto> True)\<rparr>))
       \<and> (\<forall>key ws s'. get_flag s key \<and> session ws s = Inr s' \<longrightarrow> get_flag s' key)"
proof (intro conjI impI allI)
  have i: "init_counters s = s" using assms by (rule init_counters_id)
  show "quiz_run w s =
      Inr (if get_flag s ''answered_name'' then s
           else s\<lparr>score := Some (if answer w = Named (quiz_choice w) then sc + 1 else sc),
                  total := Some (t + 1),
                  answered := (answered s)(''answered_name'' \<mapsto> True)\<rparr>)"
    if "name_button w \<and> (\<forall>i. \<not> ox_button w i)"
  proof -
    from that have n: "name_button w" and o: "\<forall>i. \<not> ox_button w i" by simp_all
    show ?thesis
      unfolding quiz_run_def i Let_def
      using n by (simp only: if_True name_submit_eq [OF assms] sum.case ox_loop_none [OF o])
  qed
  show "quiz_run w s =
      Inr (if get_flag s (''answered_'' @ format_nat i) then s
           else s\<lparr>score := Some (if (ox_choice w i = Pick_O) = fst (snd (ox_qs ! (i - 1)))
                                 then sc + 1 else sc),
                  total := Some (t + 1),
                  answered := (answered s)(''answered_'' @ format_nat i \<mapsto> True)\<rparr>)"
    if "i \<in> {1, 2, 3} \<and> \<not> name_button w \<and> ox_button w i
        \<and> (\<forall>j. j \<noteq> i \<longrightarrow> \<not> ox_button w j)"
  proof -
    from that have n: "\<not> name_button w" and m: "i \<in> {1, 2, 3}" and b: "ox_button w i"
      and o: "\<forall>j. j \<noteq> i \<longrightarrow> \<not> ox_button w j" by simp_all
    show ?thesis
      unfolding quiz_run_def i Let_def
      using n by (simp only: if_False sum.case ox_loop_single [OF m b o] ox_submit_eq [OF assms])
  qed
  show "get_flag s' key" if "get_flag s key \<and> session ws s = Inr s'" for key ws s'
    using session_flag_kept [OF assms] that by blast
qed

theorem submit_counts_once_witness:
  "quiz_run \<lparr>quiz_choice = Triangle, answer = Named Triangle, name_button = True,
             ox_choice = (\<lambda>i. Pick_O), ox_button = (\<lambda>i. False)\<rparr>
     \<lparr>score = Some 0, total = Some 0, answered = Map.empty\<rparr>
   = Inr \<lparr>score = Some 1, total = Some 1, answered = [''answered_name'' \<mapsto> True]\<rparr>
   \<and> quiz_run \<lparr>quiz_choice = Triangle, answer = Named Circle, name_button = True,
             ox_choice = (\<lambda>i. Pick_O), ox_button = (\<lambda>i. False)\<rparr>
     \<lparr>score = Some 1, total = Some 1, answered = [''answered_name'' \<mapsto> True]\<rparr>
   = Inr \<lparr>score = Some 1, total = Some 1, answered = [''answered_name'' \<mapsto> True]\<rparr>
   \<and> quiz_run \<lparr>quiz_choice = Triangle, answer = Unselected, name_button = False,
             ox_choice = (\<lambda>i. Pick_O), ox_button = (\<lambda>i. i = 3)\<rparr>
     \<lparr>score = Some 1, total = Some 1, answered = [''answered_name'' \<mapsto> True]\<rparr>
   = Inr \<lparr>score = Some 1, total = Some 2,
          answered = [''answered_name'' \<mapsto> True, ''answered_3'' \<mapsto> True]\<rparr>
   \<and> get_flag \<lparr>score = Some 1, total = Some 2,
          answered = [''answered_name'' \<mapsto> True, ''answered_3'' \<mapsto> True]\<rparr> ''answered_name''"
proof -
  let ?s0 = "\<lparr>score = Some 0, total = Some 0, answered = Map.empty\<rparr>"
  let ?s1 = "\<lparr>score = Some 1, total = Some 1, answered = [''answered_name'' \<mapsto> True]\<rparr>"
  let ?s2 = "\<lparr>score = Some 1, total = Some 2,
          answered = [''answered_name'' \<mapsto> True, ''answered_3'' \<mapsto> True]\<rparr>"
  let ?w1 = "\<lparr>quiz_choice = Triangle, answer = Named Triangle, name_button = True,
             ox_choice = (\<lambda>i. Pick_O), ox_button = (\<lambda>i. False)\<rparr>"
  let ?w2 = "\<lparr>quiz_choice = Triangle, answer = Named Circle, name_button = True,
             ox_choice = (\<lambda>i. Pick_O), ox_button = (\<lambda>i. False)\<rparr>"
  let ?w3 = "\<lparr>quiz_choice = Triangle, answer = Unselected, name_button = False,
             ox_choice = (\<lambda>i. Pick_O), ox_button = (\<lambda>i. i = 3)\<rparr>"
  have f3: "format_nat 3 = ''3''"
    by (simp add: format_nat.simps)
  have q3: "fst (snd (ox_qs ! 2)) = False"
    by (simp add: ox_qs_def)
  have a: "quiz_run ?w1 ?s0 = Inr ?s1"
    using submit_counts_once [of ?s0 0 0 ?w1 1] by (simp add: get_flag_def)
  have b: "quiz_run ?w2 ?s1 = Inr ?s1"
    using submit_counts_once [of ?s1 1 1 ?w2 1] by (simp add: get_flag_def)
  have c: "quiz_run ?w3 ?s1 = Inr ?s2"
    using submit_counts_once [of ?s1 1 1 ?w3 3] by (simp add: get_flag_def f3 q3)
  have "session [?w3] ?s1 = Inr ?s2"
    using c by simp
  moreover have "get_flag ?s1 ''answered_name''"
    by (simp add: get_flag_def)
  moreover have c1: "score ?s1 = Some 1" and c2: "total ?s1 = Some 1"
    by simp_all
  note submit_counts_once [OF c1 c2, of ?w3 3, THEN conjunct2, THEN conjunct2]
  ultimately have d: "get_flag ?s2 ''answered_name''"
    by blast
  from a b c d show ?thesis by (intro conjI)
qed

text \<open>
  Claim C4. The state of a new session after the counters are set is score 0, total 0 and
  no flag. From it every finite sequence of runs ends without error in a state with
  \<open>0 \<le> score \<le> total\<close>, and every continuation of the sequence ends with a score
  and a total that are not smaller.
\<close>

theorem score_le_total:
  "init_counters empty_session = \<lparr>score = Some 0, total = Some 0, answered = Map.empty\<rparr>
   \<and> (\<exists>s sc t.
         session ws \<lparr>score = Some 0, total = Some 0, answered = Map.empty\<rparr> = Inr s
         \<and> score s = Some sc \<and> total s = Some t \<and> 0 \<le> sc \<and> sc \<le> t
         \<and> (\<exists>s' sc' t'.
               session (ws @ ws') \<lparr>score = Some 0, total = Some 0, answered = Map.empty\<rparr> = Inr s'
               \<and> score s' = Some sc' \<and> total s' = Some t' \<and> sc \<le> sc' \<and> t \<le> t'))"
proof -
  let ?s0 = "\<lparr>score = Some 0, total = Some 0, answered = Map.empty\<rparr>"
  have c0: "score ?s0 = Some 0" "total ?s0 = Some 0" by simp_all
  from session_advances [OF c0, of ws]
  obtain s where s: "session ws ?s0 = Inr s" "advances ?s0 s" by blast
  from s(2) obtain sc t where c: "score s = Some sc" "total s = Some t" "0 \<le> sc" "sc \<le> t"
    unfolding advances_def by auto
  from session_advances [OF c(1,2), of ws']
  obtain s' where s': "session ws' s = Inr s'" "advances s s'" by blast
  from s'(2) c(1,2) obtain sc' t' where
    c': "score s' = Some sc'" "total s' = Some t'" "sc \<le> sc'" "t \<le> t'"
    unfolding advances_def by auto
  have "session (ws @ ws') ?s0 = Inr s'"
    using s(1) s'(1) by (simp add: session_append)
  with s(1) c c' init_counters_empty show ?thesis by blast
qed

text \<open>
  Claim C2 says that the session state has a reset that clears the flags and sets both
  counters to 0. The script has no such operation: once the naming quiz is answered
  (score 1, total 1), no sequence of runs ends with score 0, with total 0 or with the
  flag cleared.
\<close>

theorem no_reset_counterexample:
  "\<not> (\<exists>ws s'.
        session ws \<lparr>score = Some 1, total = Some 1, answered = [''answered_name'' \<mapsto> True]\<rparr>
          = Inr s'
        \<and> (score s' = Some 0 \<or> total s' = Some 0 \<or> \<not> get_flag s' ''answered_name''))"
proof
  let ?s1 = "\<lparr>score = Some 1, total = Some 1, answered = [''answered_name'' \<mapsto> True]\<rparr>"
  assume "\<exists>ws s'. session ws ?s1 = Inr s'
        \<and> (score s' = Some 0 \<or> total s' = Some 0 \<or> \<not> get_flag s' ''answered_name'')"
  then obtain ws s' where r: "session ws ?s1 = Inr s'"
    and z: "score s' = Some 0 \<or> total s' = Some 0 \<or> \<not> get_flag s' ''answered_name''"
    by blast
  have c1: "score ?s1 = Some 1" "total ?s1 = Some 1" by simp_all
  from session_advances [OF c1, of ws] r have adv: "advances ?s1 s'" by simp
  have "get_flag ?s1 ''answered_name''" by (simp add: get_flag_def)
  with adv have "get_flag s' ''answered_name''" by (simp add: advances_def)
  moreover from adv obtain sc' t' where "score s' = Some sc'" "total s' = Some t'"
      "1 \<le> sc'" "1 \<le> t'"
    unfolding advances_def by auto
  ultimately show False using z by auto
qed

text \<open>
  Claim C2 as amended. The counters are set to 0 only while they are absent, as in a new
  session, which has no flag; on a state that holds its counters that step changes nothing,
  and a run of the quiz ends without error with neither counter smaller and every flag
  that read true still reading true.
\<close>

theorem no_reset:
  "init_counters empty_session = \<lparr>score = Some 0, total = Some 0, answered = Map.empty\<rparr>
   \<and> (score s = Some sc \<and> total s = Some t \<longrightarrow>
        init_counters s = s
        \<and> (\<exists>s' sc' t'. quiz_run w s = Inr s' \<and> score s' = Some sc' \<and> total s' = Some t'
              \<and> sc \<le> sc' \<and> t \<le> t' \<and> (\<forall>key. get_flag s key \<longrightarrow> get_flag s' key)))"
proof (intro conjI impI)
  show "init_counters empty_session = \<lparr>score = Some 0, total = Some 0, answered = Map.empty\<rparr>"
    by (rule init_counters_empty)
next
  assume "score s = Some sc \<and> total s = Some t"
  then have c: "score s = Some sc" "total s = Some t" by simp_all
  from c show "init_counters s = s" by (rule init_counters_id)
  from quiz_run_advances [OF c, of w]
  obtain s' where s': "quiz_run w s = Inr s'" "advances s s'" by blast
  from s'(2) c obtain sc' t' where "score s' = Some sc'" "total s' = Some t'"
      "sc \<le> sc'" "t \<le> t'" "\<forall>key. get_flag s key \<longrightarrow> get_flag s' key"
    unfolding advances_def by auto
  with s'(1) show "\<exists>s' sc' t'. quiz_run w s = Inr s' \<and> score s' = Some sc' \<and> total s' = Some t'
              \<and> sc \<le> sc' \<and> t \<le> t' \<and> (\<forall>key. get_flag s key \<longrightarrow> get_flag s' key)"
    by blast
qed

theorem no_reset_witness:
  "init_counters \<lparr>score = Some 1, total = Some 1, answered = [''answered_name'' \<mapsto> True]\<rparr>
     = \<lparr>score = Some 1, total = Some 1, answered = [''answered_name'' \<mapsto> True]\<rparr>
   \<and> (\<exists>s' sc' t'.
         quiz_run \<lparr>quiz_choice = Circle, answer = Named Circle, name_button = True,
                   ox_choice = (\<lambda>i. Pick_X), ox_button = (\<lambda>i. True)\<rparr>
           \<lparr>score = Some 1, total = Some 1, answered = [''answered_name'' \<mapsto> True]\<rparr> = Inr s'
         \<and> score s' = Some sc' \<and> total s' = Some t' \<and> 1 \<le> sc' \<and> 1 \<le> t'
         \<and> get_flag s' ''answered_name'')"
proof -
  let ?s1 = "\<lparr>score = Some 1, total = Some 1, answered = [''answered_name'' \<mapsto> True]\<rparr>"
  let ?w = "\<lparr>quiz_choice = Circle, answer = Named Circle, name_button = True,
                   ox_choice = (\<lambda>i. Pick_X), ox_button = (\<lambda>i. True)\<rparr>"
  have c: "score ?s1 = Some 1 \<and> total ?s1 = Some 1" by simp
  have f: "get_flag ?s1 ''answered_name''" by (simp add: get_flag_def)
  from no_reset [of ?s1 1 1 ?w] c have i: "init_counters ?s1 = ?s1"
    and "\<exists>s' sc' t'. quiz_run ?w ?s1 = Inr s' \<and> score s' = Some sc' \<and> total s' = Some t'
              \<and> 1 \<le> sc' \<and> 1 \<le> t' \<and> (\<forall>key. get_flag ?s1 key \<longrightarrow> get_flag s' key)"
    by blast+
  with f show ?thesis by blast
qed

end
